theory Spec2Isabelle
  imports Main
begin

section \<open>Shared types\<close>

text \<open>
  A rejected promise or a thrown exception is a value. \<open>Error msg\<close> is the
  \<^verbatim>\<open>new Error(msg)\<close> that the wrapper itself throws; \<open>Thrown x\<close> is a failure raised by an
  external collaborator (the receipt query, the filter, the page callback, the wallet),
  which the wrapper never catches and so hands on unchanged.
\<close>

datatype 'x error = Error string | Thrown 'x

text \<open>
  \<^verbatim>\<open>Connex.Thor.Transaction.Receipt\<close>: the wrapper reads only the \<^verbatim>\<open>reverted\<close> flag; every other
  attribute lives in the record's extension.
\<close>

record receipt =
  reverted :: bool

text \<open>
  The calls that \<^verbatim>\<open>waitForReceipt\<close> makes on the connex object, in the order they are made:
  \<^verbatim>\<open>connex.thor.ticker()\<close>, \<^verbatim>\<open>ticker.next()\<close> and
  \<^verbatim>\<open>connex.thor.transaction(txId).getReceipt()\<close>.
\<close>

datatype call = ThorTicker | TickerNext | GetReceipt string

text \<open>The number of ticks consumed in a log of calls.\<close>

definition ticks :: "call list \<Rightarrow> nat" where
  "ticks tr = length (filter (\<lambda>e. e = TickerNext) tr)"

text \<open>The number of receipt queries made in a log of calls.\<close>

definition receiptQueries :: "call list \<Rightarrow> nat" where
  "receiptQueries tr = length (filter (\<lambda>e. case e of GetReceipt _ \<Rightarrow> True | _ \<Rightarrow> False) tr)"

section \<open>waitForReceipt\<close>

text \<open>
  The chain as \<^verbatim>\<open>waitForReceipt\<close> sees it: \<open>getReceipt t txId\<close> is the answer of
  \<^verbatim>\<open>connex.thor.transaction(txId).getReceipt()\<close> once \<open>t\<close> ticks have been consumed: a rejection
  \<open>Inl x\<close>, \<^verbatim>\<open>null\<close> (\<open>Inr None\<close>) or a receipt. \<^verbatim>\<open>ticker.next()\<close> resolves with the next
  block and has no failure of its own.

  \<^verbatim>\<open>
  for (let i = 0; ; i++) {
    if (i >= iterations) { throw new Error("Transaction not found."); }
    await ticker.next();
    const receipt = await connex.thor.transaction(txId).getReceipt();
    if (receipt?.reverted) { throw new Error("The transaction has been reverted."); }
    if (receipt) { return receipt; }
  }
  \<close>
  The loop carries the counter \<open>i\<close> and the log of calls made so far; it returns the outcome
  of the promise together with the final log. \<^verbatim>\<open>iterations\<close> is an integer-valued number.
\<close>

function waitForReceipt_loop ::
  "(nat \<Rightarrow> string \<Rightarrow> 'x + 'm receipt_scheme option) \<Rightarrow> string \<Rightarrow> int \<Rightarrow> int \<Rightarrow> call list
     \<Rightarrow> ('x error + 'm receipt_scheme) \<times> call list" where
  "waitForReceipt_loop getReceipt txId iterations i tr =
     (if i \<ge> iterations then (Inl (Error ''Transaction not found.''), tr)
      else
        let tr1 = tr @ [TickerNext];
            tr2 = tr1 @ [GetReceipt txId]
        in case getReceipt (ticks tr1) txId of
             Inl x \<Rightarrow> (Inl (Thrown x), tr2)
           | Inr receipt \<Rightarrow>
               if (case receipt of None \<Rightarrow> False | Some r \<Rightarrow> reverted r)
               then (Inl (Error ''The transaction has been reverted.''), tr2)
               else (case receipt of
                       Some r \<Rightarrow> (Inr r, tr2)
                     | None \<Rightarrow> waitForReceipt_loop getReceipt txId iterations (i + 1) tr2))"
  by pat_completeness auto
termination
  by (relation "measure (\<lambda>(g, t, iterations, i, tr). nat (iterations - i))") auto

text \<open>
  \<^verbatim>\<open>async function waitForReceipt(txId: string, iterations = 5)\<close>: an omitted argument
  (\<open>None\<close>) takes the default 5; the ticker is obtained once, before the loop.
\<close>

definition waitForReceipt ::
  "(nat \<Rightarrow> string \<Rightarrow> 'x + 'm receipt_scheme option) \<Rightarrow> string \<Rightarrow> int option
     \<Rightarrow> ('x error + 'm receipt_scheme) \<times> call list" where
  "waitForReceipt getReceipt txId iterations_arg =
     (let iterations = (case iterations_arg of None \<Rightarrow> 5 | Some n \<Rightarrow> n);
          tr = [ThorTicker]
      in waitForReceipt_loop getReceipt txId iterations 0 tr)"

text \<open>
  The log of a wait that went through \<open>n\<close> rounds of the loop: one tick, then one receipt
  query, \<open>n\<close> times over.
\<close>

definition rounds :: "string \<Rightarrow> nat \<Rightarrow> call list" where
  "rounds txId n = concat (replicate n [TickerNext, GetReceipt txId])"

section \<open>JavaScript numbers\<close>

text \<open>
  The offset of \<^verbatim>\<open>fetchEvents\<close> is a JavaScript number, a double. Starting from 0 and
  adding an integer again and again, it is an integer that a double holds exactly, or an
  infinity once a sum has passed the largest double.
\<close>

datatype number = Finite int | PosInfinity | NegInfinity

text \<open>
  The distance between neighbouring doubles around \<open>n\<close>: 1 below \<open>2^53\<close>, doubling with
  each further binary digit.
\<close>

function ulp :: "nat \<Rightarrow> nat" where
  "ulp n = (if n < 2 ^ 53 then 1 else 2 * ulp (n div 2))"
  by pat_completeness auto
termination
  by (relation "measure (\<lambda>n. n)") auto

text \<open>The double nearest to a natural number, a tie going to the even significand.\<close>

definition roundHalfEven :: "nat \<Rightarrow> nat" where
  "roundHalfEven n =
     (let u = ulp n; q = n div u; r = n mod u
      in if 2 * r < u then q * u
         else if u < 2 * r then (q + 1) * u
         else if even q then q * u
         else (q + 1) * u)"

text \<open>
  The number that an arithmetic result with the exact integer value \<open>s\<close> becomes: the
  nearest double, and an infinity when that is \<open>2^1024\<close> or more in magnitude.
\<close>

definition toNumber :: "int \<Rightarrow> number" where
  "toNumber s =
     (let m = roundHalfEven (nat \<bar>s\<bar>)
      in if 2 ^ 1024 \<le> m then (if s < 0 then NegInfinity else PosInfinity)
         else Finite (if s < 0 then - int m else int m))"

text \<open>
  \<^verbatim>\<open>offset + limit\<close> for a number \<open>offset\<close> and an integer \<open>limit\<close> that a double holds
  exactly: the exact sum, rounded once.
\<close>

fun js_add :: "number \<Rightarrow> int \<Rightarrow> number" where
  "js_add (Finite a) b = toNumber (a + b)"
| "js_add PosInfinity b = PosInfinity"
| "js_add NegInfinity b = NegInfinity"

section \<open>fetchEvents\<close>

text \<open>
  The calls that \<^verbatim>\<open>fetchEvents\<close> makes, in the order they are made:
  \<^verbatim>\<open>filter.apply(offset, limit)\<close> and \<^verbatim>\<open>callback(events)\<close>.
\<close>

datatype 'r fetch = Apply number int | Callback "'r list"

text \<open>The windows the filter was applied to, and the pages handed to the callback.\<close>

fun applications :: "'r fetch list \<Rightarrow> (number \<times> int) list" where
  "applications [] = []"
| "applications (Apply offset limit # tr) = (offset, limit) # applications tr"
| "applications (Callback events # tr) = applications tr"

fun invocations :: "'r fetch list \<Rightarrow> 'r list list" where
  "invocations [] = []"
| "invocations (Apply offset limit # tr) = invocations tr"
| "invocations (Callback events # tr) = events # invocations tr"

text \<open>
  \<open>apply offset limit\<close> is the outcome of \<^verbatim>\<open>filter.apply(offset, limit)\<close>: a rejection or a
  page of rows. \<open>callback n events\<close> is the outcome of the \<open>n\<close>-th invocation (counted
  from 0) of the page callback: \<open>None\<close> when its promise resolves, \<open>Some x\<close> when it rejects
  with \<open>x\<close>. \<open>limit\<close> is an integer that a double holds exactly.

  \<^verbatim>\<open>
  let offset = 0;
  for (;;) {
    const events = await filter.apply(offset, limit);
    if (events.length === 0) break;
    await callback(events);
    offset += limit;
  }
  \<close>
  Nothing bounds this loop, so the model runs it for at most \<open>fuel\<close> rounds. The outcome
  is \<open>None\<close> when the loop is still running after that many rounds, \<open>Some (Inr ())\<close> when
  the promise resolves and \<open>Some (Inl e)\<close> when it rejects; the log of calls made so far
  comes with it in every case.
\<close>

fun fetchEvents_loop ::
  "nat \<Rightarrow> (number \<Rightarrow> int \<Rightarrow> 'x + 'r list) \<Rightarrow> (nat \<Rightarrow> 'r list \<Rightarrow> 'x option) \<Rightarrow> int \<Rightarrow> number
     \<Rightarrow> 'r fetch list \<Rightarrow> ('x error + unit) option \<times> 'r fetch list" where
  "fetchEvents_loop 0 apply callback limit offset tr = (None, tr)"
| "fetchEvents_loop (Suc fuel) apply callback limit offset tr =
     (let tr1 = tr @ [Apply offset limit]
      in case apply offset limit of
           Inl x \<Rightarrow> (Some (Inl (Thrown x)), tr1)
         | Inr events \<Rightarrow>
             if length events = 0 then (Some (Inr ()), tr1)
             else
               (let tr2 = tr1 @ [Callback events]
                in (case callback (length (invocations tr)) events of
                      Some x \<Rightarrow> (Some (Inl (Thrown x)), tr2)
                    | None \<Rightarrow>
                        fetchEvents_loop fuel apply callback limit (js_add offset limit) tr2)))"

text \<open>
  \<^verbatim>\<open>async function fetchEvents(filter, callback, limit: number = 20)\<close>: an omitted limit
  (\<open>None\<close>) takes the default 20.
\<close>

definition fetchEvents ::
  "nat \<Rightarrow> (number \<Rightarrow> int \<Rightarrow> 'x + 'r list) \<Rightarrow> (nat \<Rightarrow> 'r list \<Rightarrow> 'x option) \<Rightarrow> int option
     \<Rightarrow> ('x error + unit) option \<times> 'r fetch list" where
  "fetchEvents fuel apply callback limit_arg =
     (let limit = (case limit_arg of None \<Rightarrow> 20 | Some n \<Rightarrow> n);
          offset = Finite 0
      in fetchEvents_loop fuel apply callback limit offset [])"

text \<open>
  The offset of the \<open>j\<close>-th window: 0 with \<open>limit\<close> added \<open>j\<close> times, each sum rounded as
  the code's addition rounds it.
\<close>

fun offsetAt :: "int \<Rightarrow> nat \<Rightarrow> number" where
  "offsetAt limit 0 = Finite 0"
| "offsetAt limit (Suc j) = js_add (offsetAt limit j) limit"

text \<open>
  The page found in a window (none where the filter rejects), the page found in the
  \<open>j\<close>-th window, and the log of \<open>n\<close> complete rounds: for each \<open>j < n\<close> the filter applied
  to the \<open>j\<close>-th window, then the callback invoked with the page found there.
\<close>

definition pageIn :: "(number \<Rightarrow> int \<Rightarrow> 'x + 'r list) \<Rightarrow> int \<Rightarrow> number \<Rightarrow> 'r list" where
  "pageIn apply limit offset = (case apply offset limit of Inl x \<Rightarrow> [] | Inr events \<Rightarrow> events)"

definition pageAt :: "(number \<Rightarrow> int \<Rightarrow> 'x + 'r list) \<Rightarrow> int \<Rightarrow> nat \<Rightarrow> 'r list" where
  "pageAt apply limit j = pageIn apply limit (offsetAt limit j)"

definition pages :: "(number \<Rightarrow> int \<Rightarrow> 'x + 'r list) \<Rightarrow> int \<Rightarrow> nat \<Rightarrow> 'r fetch list" where
  "pages apply limit n =
     concat (map (\<lambda>j. [Apply (offsetAt limit j) limit, Callback (pageAt apply limit j)]) [0..<n])"

section \<open>getContract\<close>

datatype AbiType = TFunction | TConstructor | TEvent | TFallback | TReceive

datatype StateMutabilityType = Pure | View | Nonpayable | Payable

text \<open>\<^verbatim>\<open>AbiInput\<close> and \<^verbatim>\<open>AbiOutput\<close>; an output carries no \<^verbatim>\<open>indexed\<close> flag.\<close>

datatype AbiParam =
  AbiParam (paramName: string) (paramType: string) (indexed: "bool option")
    (components: "AbiParam list option") (internalType: "string option")

text \<open>
  \<^verbatim>\<open>AbiItem\<close>. An optional field that is absent is \<open>None\<close>. The fields \<^verbatim>\<open>constant\<close> and
  \<^verbatim>\<open>type\<close> are \<open>isConstant\<close> and \<open>abiType\<close> here.
\<close>

record AbiItem =
  anonymous :: "bool option"
  isConstant :: "bool option"
  inputs :: "AbiParam list option"
  name :: "string option"
  outputs :: "AbiParam list option"
  payable :: "bool option"
  stateMutability :: "StateMutabilityType option"
  abiType :: AbiType
  gas :: "int option"

text \<open>
  What \<^verbatim>\<open>connex.thor.account(address).method(method).call(...args)\<close> resolves with: the
  wrapper reads only \<^verbatim>\<open>decoded\<close>.
\<close>

record 'd vmOutput =
  decoded :: 'd

text \<open>
  The signing request that \<^verbatim>\<open>connex.vendor.sign("tx", clauses)\<close> starts and
  \<^verbatim>\<open>.comment(text)\<close> extends.
\<close>

record 'c txSigning =
  clauses :: "'c list"
  comment :: "string option"

definition sign_tx :: "'c list \<Rightarrow> 'c txSigning" where
  "sign_tx cs = \<lparr>clauses = cs, comment = None\<rparr>"

definition with_comment :: "string \<Rightarrow> 'c txSigning \<Rightarrow> 'c txSigning" where
  "with_comment text s = s\<lparr>comment := Some text\<rparr>"

text \<open>
  The part of the connex library that the contract binder calls, with argument values
  \<open>'v\<close>, decoded outputs \<open>'d\<close>, clauses \<open>'c\<close>, wallet responses \<open>'t\<close>, event visitors \<open>'e\<close> and
  failures \<open>'x\<close>:
  \<^item> \<open>call address method args\<close> is \<^verbatim>\<open>connex.thor.account(address).method(method).call(...args)\<close>,
    a promise that rejects or resolves with an output;
  \<^item> \<open>asClause address method args\<close> is \<^verbatim>\<open>connex.thor.account(address).method(method).asClause(...args)\<close>;
  \<^item> \<open>event address item\<close> is \<^verbatim>\<open>connex.thor.account(address).event(item)\<close>;
  \<^item> \<open>request s\<close> is \<^verbatim>\<open>.request()\<close> on the signing request \<open>s\<close>, a promise that rejects or
    resolves with the wallet's response.
\<close>

record ('v, 'd, 'c, 't, 'e, 'x) connex =
  call :: "string \<Rightarrow> AbiItem \<Rightarrow> 'v list \<Rightarrow> 'x + 'd vmOutput"
  asClause :: "string \<Rightarrow> AbiItem \<Rightarrow> 'v list \<Rightarrow> 'c"
  event :: "string \<Rightarrow> AbiItem \<Rightarrow> 'e"
  request :: "'c txSigning \<Rightarrow> 'x + 't"

text \<open>
  \<^verbatim>\<open>
  return async (...args) => {
    const res = await connex.thor.account(address).method(method).call(...args);
    return res.decoded;
  };
  \<close>
\<close>

definition defineConstant ::
  "('v, 'd, 'c, 't, 'e, 'x) connex \<Rightarrow> string \<Rightarrow> AbiItem \<Rightarrow> 'v list \<Rightarrow> 'x error + 'd" where
  "defineConstant cx address method args =
     (case call cx address method args of
        Inl x \<Rightarrow> Inl (Thrown x)
      | Inr res \<Rightarrow> Inr (decoded res))"

text \<open>
  \<^verbatim>\<open>
  return (...args) => async (comment?: string) => {
    const clause = connex.thor.account(address).method(method).asClause(...args);
    if (comment != null) {
      return connex.vendor.sign("tx", [clause]).comment(comment).request();
    }
    return connex.vendor.sign("tx", [clause]).request();
  };
  \<close>
\<close>

definition defineSignedRequest ::
  "('v, 'd, 'c, 't, 'e, 'x) connex \<Rightarrow> string \<Rightarrow> AbiItem \<Rightarrow> 'v list \<Rightarrow> string option
     \<Rightarrow> 'x error + 't" where
  "defineSignedRequest cx address method args comment_arg =
     (let clause = asClause cx address method args
      in case (case comment_arg of
                 Some text \<Rightarrow> request cx (with_comment text (sign_tx [clause]))
               | None \<Rightarrow> request cx (sign_tx [clause])) of
           Inl x \<Rightarrow> Inl (Thrown x)
         | Inr response \<Rightarrow> Inr response)"

text \<open>
  \<^verbatim>\<open>
  return (...args) => {
    return connex.thor.account(address).method(method).asClause(...args);
  };
  \<close>
\<close>

definition defineClause ::
  "('v, 'd, 'c, 't, 'e, 'x) connex \<Rightarrow> string \<Rightarrow> AbiItem \<Rightarrow> 'v list \<Rightarrow> 'c" where
  "defineClause cx address method args = asClause cx address method args"

text \<open>
  The tables of a contract are \<^verbatim>\<open>{}\<close> literals used as dictionaries. Such an object has
  its own properties, here \<open>own\<close>, and a prototype, at first \<^verbatim>\<open>Object.prototype\<close>; a read
  of a name that is not among the own properties goes on to the prototype.
\<close>

datatype 'v prototype = ObjectPrototype | Replaced 'v

record 'v table =
  own :: "string \<rightharpoonup> 'v"
  prototype :: "'v prototype"

datatype typeError = TypeError

text \<open>
  \<^verbatim>\<open>table[key] = value\<close> in strict mode, as in a module, for a \<open>value\<close> that is an object:
  \<^item> the key \<^verbatim>\<open>__proto__\<close> reaches the setter inherited from \<^verbatim>\<open>Object.prototype\<close>, which
    replaces the table's prototype by \<open>value\<close> and creates no property;
  \<^item> a key that is an own property is overwritten;
  \<^item> any other key becomes a new own property, unless the prototype chain forbids the
    assignment, which then throws a \<^verbatim>\<open>TypeError\<close>. \<^verbatim>\<open>Object.prototype\<close> forbids none.
    What a replaced prototype, a wrapper function or an event visitor, forbids (for a
    function, \<^verbatim>\<open>name\<close> and \<^verbatim>\<open>length\<close>) is fixed by the JavaScript engine and the
    connex library and is the parameter \<open>readOnly\<close>.
\<close>

definition assign :: "(string \<Rightarrow> bool) \<Rightarrow> string \<Rightarrow> 'v \<Rightarrow> 'v table \<Rightarrow> typeError + 'v table" where
  "assign readOnly key v t =
     (if key = ''__proto__'' then Inr (t\<lparr>prototype := Replaced v\<rparr>)
      else if own t key \<noteq> None then Inr (t\<lparr>own := (own t)(key \<mapsto> v)\<rparr>)
      else
        (case prototype t of
           ObjectPrototype \<Rightarrow> Inr (t\<lparr>own := (own t)(key \<mapsto> v)\<rparr>)
         | Replaced p \<Rightarrow>
             if readOnly key then Inl TypeError else Inr (t\<lparr>own := (own t)(key \<mapsto> v)\<rparr>)))"

text \<open>\<^verbatim>\<open>Contract\<close>: three method tables, the event table and the address.\<close>

record ('v, 'd, 'c, 't, 'x) methods =
  "constant" :: "('v list \<Rightarrow> 'x error + 'd) table"
  signed :: "('v list \<Rightarrow> string option \<Rightarrow> 'x error + 't) table"
  clause :: "('v list \<Rightarrow> 'c) table"

record ('v, 'd, 'c, 't, 'e, 'x) contract =
  methods :: "('v, 'd, 'c, 't, 'x) methods"
  events :: "'e table"
  getAddress :: string

datatype tableName = ConstantTable | SignedTable | ClauseTable | EventsTable

text \<open>
  The body of the loop over the ABI; \<open>readOnly tbl\<close> tells which keys a replaced
  prototype of the table \<open>tbl\<close> forbids. An assignment that throws ends the loop and
  \<^verbatim>\<open>getContract\<close> with it.
  \<^verbatim>\<open>
  if (item.name != null && item.type === "function") {
    if (item.stateMutability === "view") {
      contract.methods.constant[item.name] = defineConstant(address, item);
    } else {
      contract.methods.signed[item.name] = defineSignedRequest(address, item);
      contract.methods.clause[item.name] = defineClause(address, item);
    }
  } else if (item.name != null && item.type === "event") {
    contract.events[item.name] = connex.thor.account(address).event(item);
  }
  \<close>
\<close>

definition bindItem ::
  "(tableName \<Rightarrow> string \<Rightarrow> bool) \<Rightarrow> ('v, 'd, 'c, 't, 'e, 'x) connex \<Rightarrow> string \<Rightarrow> AbiItem
     \<Rightarrow> ('v, 'd, 'c, 't, 'e, 'x) contract \<Rightarrow> typeError + ('v, 'd, 'c, 't, 'e, 'x) contract" where
  "bindItem readOnly cx address item contract =
     (if name item \<noteq> None \<and> abiType item = TFunction then
        (if stateMutability item = Some View then
           (case assign (readOnly ConstantTable) (the (name item))
                   (defineConstant cx address item) (constant (methods contract)) of
              Inl e \<Rightarrow> Inl e
            | Inr t \<Rightarrow> Inr (contract\<lparr>methods := (methods contract)\<lparr>constant := t\<rparr>\<rparr>))
         else
           (case assign (readOnly SignedTable) (the (name item))
                   (defineSignedRequest cx address item) (signed (methods contract)) of
              Inl e \<Rightarrow> Inl e
            | Inr t1 \<Rightarrow>
                (case assign (readOnly ClauseTable) (the (name item))
                        (defineClause cx address item) (clause (methods contract)) of
                   Inl e \<Rightarrow> Inl e
                 | Inr t2 \<Rightarrow>
                     Inr (contract\<lparr>methods := (methods contract)\<lparr>signed := t1, clause := t2\<rparr>\<rparr>))))
      else if name item \<noteq> None \<and> abiType item = TEvent then
        (case assign (readOnly EventsTable) (the (name item))
                (event cx address item) (events contract) of
           Inl e \<Rightarrow> Inl e
         | Inr t \<Rightarrow> Inr (contract\<lparr>events := t\<rparr>))
      else Inr contract)"

text \<open>\<^verbatim>\<open>for (const item of abi) { ... }\<close>.\<close>

fun bindAll ::
  "(tableName \<Rightarrow> string \<Rightarrow> bool) \<Rightarrow> ('v, 'd, 'c, 't, 'e, 'x) connex \<Rightarrow> string \<Rightarrow> AbiItem list
     \<Rightarrow> ('v, 'd, 'c, 't, 'e, 'x) contract \<Rightarrow> typeError + ('v, 'd, 'c, 't, 'e, 'x) contract" where
  "bindAll readOnly cx address [] contract = Inr contract"
| "bindAll readOnly cx address (item # abi) contract =
     (case bindItem readOnly cx address item contract of
        Inl e \<Rightarrow> Inl e
      | Inr contract' \<Rightarrow> bindAll readOnly cx address abi contract')"

text \<open>
  \<^verbatim>\<open>getContract(abi, address)\<close> starts from empty tables and runs the loop over the ABI.
\<close>

definition emptyTable :: "'v table" where
  "emptyTable = \<lparr>own = Map.empty, prototype = ObjectPrototype\<rparr>"

definition getContract ::
  "(tableName \<Rightarrow> string \<Rightarrow> bool) \<Rightarrow> ('v, 'd, 'c, 't, 'e, 'x) connex \<Rightarrow> AbiItem list \<Rightarrow> string
     \<Rightarrow> typeError + ('v, 'd, 'c, 't, 'e, 'x) contract" where
  "getContract readOnly cx abi address =
     bindAll readOnly cx address abi
       \<lparr>methods = \<lparr>constant = emptyTable, signed = emptyTable, clause = emptyTable\<rparr>,
        events = emptyTable,
        getAddress = address\<rparr>"

text \<open>The last item of an ABI that satisfies a condition: the one whose entry survives.\<close>

definition lastItem :: "(AbiItem \<Rightarrow> bool) \<Rightarrow> AbiItem list \<Rightarrow> AbiItem option" where
  "lastItem P abi = find P (rev abi)"

text \<open>
  The partition as the specification words it, to be compared with what the loop builds:
  among the items named \<open>n\<close>, the functions whose state mutability is \<^verbatim>\<open>view\<close>, the
  other functions, and the events.
\<close>

definition viewFunction :: "string \<Rightarrow> AbiItem \<Rightarrow> bool" where
  "viewFunction n item =
     (name item = Some n \<and> abiType item = TFunction \<and> stateMutability item = Some View)"

definition otherFunction :: "string \<Rightarrow> AbiItem \<Rightarrow> bool" where
  "otherFunction n item =
     (name item = Some n \<and> abiType item = TFunction \<and> stateMutability item \<noteq> Some View)"

definition namedEvent :: "string \<Rightarrow> AbiItem \<Rightarrow> bool" where
  "namedEvent n item = (name item = Some n \<and> abiType item = TEvent)"

text \<open>All four tables still have the prototype they were created with.\<close>

definition pristine :: "('v, 'd, 'c, 't, 'e, 'x) contract \<Rightarrow> bool" where
  "pristine contract =
     (prototype (constant (methods contract)) = ObjectPrototype
      \<and> prototype (signed (methods contract)) = ObjectPrototype
      \<and> prototype (clause (methods contract)) = ObjectPrototype
      \<and> prototype (events contract) = ObjectPrototype)"

section \<open>Example chains, filters and callbacks\<close>

text \<open>A transaction that is never mined.\<close>

definition neverMined :: "nat \<Rightarrow> string \<Rightarrow> unit + receipt option" where
  "neverMined t txId = Inr None"

text \<open>A transaction whose receipt is there from the second tick on, reverted.\<close>

definition revertedAtTwo :: "nat \<Rightarrow> string \<Rightarrow> unit + receipt option" where
  "revertedAtTwo t txId = (if t < 2 then Inr None else Inr (Some \<lparr>reverted = True\<rparr>))"

text \<open>A transaction whose receipt is there from the third tick on, not reverted.\<close>

definition minedAtThree :: "nat \<Rightarrow> string \<Rightarrow> unit + receipt option" where
  "minedAtThree t txId = (if t < 3 then Inr None else Inr (Some \<lparr>reverted = False\<rparr>))"

text \<open>
  A filter over 27 rows, numbered from 0, read in windows of 20: a full page, a page of 7
  rows, then nothing.
\<close>

definition threePages :: "number \<Rightarrow> int \<Rightarrow> string + nat list" where
  "threePages offset limit =
     (if offset = Finite 0 then Inr [0..<20]
      else if offset = Finite 20 then Inr [20..<27]
      else Inr [])"

text \<open>
  A filter read in windows of \<open>2^51 + 1 = 2251799813685249\<close>: one row in every window
  that starts below six times that limit, 13510798882111494, and nothing from there on.
\<close>

definition lateWindows :: "number \<Rightarrow> int \<Rightarrow> string + nat list" where
  "lateWindows offset limit =
     (case offset of
        Finite a \<Rightarrow> if a < 13510798882111494 then Inr [0] else Inr []
      | PosInfinity \<Rightarrow> Inr []
      | NegInfinity \<Rightarrow> Inr [0])"

text \<open>A filter that finds nothing.\<close>

definition noEvents :: "number \<Rightarrow> int \<Rightarrow> string + nat list" where
  "noEvents offset limit = Inr []"

text \<open>A callback that always resolves, one that rejects at once, and one that rejects its
  second page.\<close>

definition accepting :: "nat \<Rightarrow> nat list \<Rightarrow> string option" where
  "accepting n page = None"

definition rejecting :: "nat \<Rightarrow> nat list \<Rightarrow> string option" where
  "rejecting n page = Some ''consumer failed''"

definition rejectingSecond :: "nat \<Rightarrow> nat list \<Rightarrow> string option" where
  "rejectingSecond n page = (if n = 1 then Some ''consumer failed'' else None)"

text \<open>
  An ABI with a view function, two other functions, an event, a constructor and a
  function without a name; the fields that the binder does not read are left out.
\<close>

definition abiItem :: "string option \<Rightarrow> AbiType \<Rightarrow> StateMutabilityType option \<Rightarrow> AbiItem" where
  "abiItem n t m =
     \<lparr>anonymous = None, isConstant = None, inputs = None, name = n, outputs = None,
      payable = None, stateMutability = m, abiType = t, gas = None\<rparr>"

definition tokenAbi :: "AbiItem list" where
  "tokenAbi =
     [abiItem (Some ''balanceOf'') TFunction (Some View),
      abiItem (Some ''transfer'') TFunction (Some Nonpayable),
      abiItem (Some ''Transfer'') TEvent None,
      abiItem None TConstructor (Some Nonpayable),
      abiItem (Some ''decimals'') TFunction (Some Pure),
      abiItem None TFunction (Some View)]"

text \<open>An ABI whose only item is a view function named \<^verbatim>\<open>__proto__\<close>.\<close>

definition protoItem :: AbiItem where
  "protoItem = abiItem (Some ''__proto__'') TFunction (Some View)"


section \<open>Properties of waitForReceipt\<close>

declare waitForReceipt_loop.simps [simp del]

lemma ticks_append: "ticks (xs @ ys) = ticks xs + ticks ys"
  by (simp add: ticks_def)

lemma rounds_Suc: "rounds txId (Suc n) = [TickerNext, GetReceipt txId] @ rounds txId n"
  by (simp add: rounds_def)

lemma rounds_snoc: "rounds txId (Suc n) = rounds txId n @ [TickerNext, GetReceipt txId]"
  by (induction n) (simp_all add: rounds_def)

lemma ticks_rounds: "ticks (ThorTicker # rounds txId n) = n"
  by (induction n) (simp_all add: rounds_snoc ticks_def rounds_def)

lemma receiptQueries_rounds: "receiptQueries (ThorTicker # rounds txId n) = n"
  by (induction n) (simp_all add: rounds_snoc receiptQueries_def rounds_def)

text \<open>
  \<open>m\<close> rounds in which the query finds nothing leave the loop where it was, \<open>m\<close> rounds
  later.
\<close>

lemma loop_absent:
  assumes "i + int m \<le> iterations"
    and "\<forall>j. ticks tr < j \<and> j \<le> ticks tr + m \<longrightarrow> getReceipt j txId = Inr None"
  shows "waitForReceipt_loop getReceipt txId iterations i tr =
         waitForReceipt_loop getReceipt txId iterations (i + int m) (tr @ rounds txId m)"
  using assms
proof (induction m arbitrary: i tr)
  case 0
  then show ?case by (simp add: rounds_def)
next
  case (Suc m)
  let ?tr2 = "tr @ [TickerNext] @ [GetReceipt txId]"
  have lt: "\<not> iterations \<le> i"
    using Suc.prems(1) by simp
  have none: "getReceipt (ticks (tr @ [TickerNext])) txId = Inr None"
    using Suc.prems(2) by (simp add: ticks_append ticks_def)
  have step: "waitForReceipt_loop getReceipt txId iterations i tr =
      waitForReceipt_loop getReceipt txId iterations (i + 1) ?tr2"
    using lt none by (subst waitForReceipt_loop.simps) (simp add: Let_def)
  have t2: "ticks ?tr2 = Suc (ticks tr)"
    by (simp add: ticks_def)
  have "waitForReceipt_loop getReceipt txId iterations (i + 1) ?tr2 =
      waitForReceipt_loop getReceipt txId iterations (i + 1 + int m) (?tr2 @ rounds txId m)"
  proof (rule Suc.IH)
    show "i + 1 + int m \<le> iterations"
      using Suc.prems(1) by simp
    show "\<forall>j. ticks ?tr2 < j \<and> j \<le> ticks ?tr2 + m \<longrightarrow> getReceipt j txId = Inr None"
      using Suc.prems(2) unfolding t2 by simp
  qed
  with step show ?case
    by (simp add: rounds_Suc add.assoc)
qed

lemma loop_exhausted:
  "iterations \<le> i \<Longrightarrow>
     waitForReceipt_loop getReceipt txId iterations i tr =
       (Inl (Error ''Transaction not found.''), tr)"
  by (subst waitForReceipt_loop.simps) simp

lemma loop_receipt:
  assumes "i < iterations" and "getReceipt (Suc (ticks tr)) txId = Inr (Some r)"
  shows "waitForReceipt_loop getReceipt txId iterations i tr =
     ((if reverted r then Inl (Error ''The transaction has been reverted.'') else Inr r),
      tr @ [TickerNext, GetReceipt txId])"
  using assms
  by (subst waitForReceipt_loop.simps) (simp add: Let_def ticks_append ticks_def)

text \<open>A receipt first seen at tick \<open>k\<close> ends the wait there, whichever way it goes.\<close>

lemma waitForReceipt_found:
  assumes "1 \<le> k" and "int k \<le> N"
    and "\<forall>j. 1 \<le> j \<and> j < k \<longrightarrow> getReceipt j txId = Inr None"
    and "getReceipt k txId = Inr (Some r)"
  shows "waitForReceipt getReceipt txId (Some N) =
     ((if reverted r then Inl (Error ''The transaction has been reverted.'') else Inr r),
      ThorTicker # rounds txId k)"
proof -
  obtain m where k: "k = Suc m"
    using assms(1) by (cases k) simp_all
  have t0: "ticks [ThorTicker] = 0"
    by (simp add: ticks_def)
  have "waitForReceipt_loop getReceipt txId N 0 [ThorTicker] =
        waitForReceipt_loop getReceipt txId N (0 + int m) ([ThorTicker] @ rounds txId m)"
    using assms(2,3) unfolding k by (intro loop_absent) (simp_all add: t0)
  also have "\<dots> =
     ((if reverted r then Inl (Error ''The transaction has been reverted.'') else Inr r),
      ([ThorTicker] @ rounds txId m) @ [TickerNext, GetReceipt txId])"
  proof (rule loop_receipt)
    show "0 + int m < N"
      using assms(2) unfolding k by simp
    have "ticks ([ThorTicker] @ rounds txId m) = m"
      using ticks_rounds[of txId m] by simp
    then show "getReceipt (Suc (ticks ([ThorTicker] @ rounds txId m))) txId = Inr (Some r)"
      using assms(4) unfolding k by simp
  qed
  finally show ?thesis
    by (simp add: waitForReceipt_def k rounds_snoc)
qed

lemma waitForReceipt_default:
  "waitForReceipt getReceipt txId None = waitForReceipt getReceipt txId (Some 5)"
  by (simp add: waitForReceipt_def)

text \<open>
  Claim C1. When the budget is \<open>N > 0\<close> ticks and the receipt query finds nothing at each
  of the ticks 1 to \<open>N\<close>, the wait rejects with "Transaction not found." after a log of
  exactly \<open>N\<close> rounds, each one tick followed by one query: \<open>N\<close> ticks are consumed.
\<close>

theorem waitForReceipt_not_found:
  assumes "0 < N"
    and "\<forall>j. 1 \<le> j \<and> j \<le> nat N \<longrightarrow> getReceipt j txId = Inr None"
  shows "waitForReceipt getReceipt txId (Some N) =
           (Inl (Error ''Transaction not found.''), ThorTicker # rounds txId (nat N))
         \<and> ticks (snd (waitForReceipt getReceipt txId (Some N))) = nat N"
proof -
  have "waitForReceipt_loop getReceipt txId N 0 [ThorTicker] =
        waitForReceipt_loop getReceipt txId N (0 + int (nat N)) ([ThorTicker] @ rounds txId (nat N))"
    using assms by (intro loop_absent) (simp_all add: ticks_def)
  also have "\<dots> = (Inl (Error ''Transaction not found.''), ThorTicker # rounds txId (nat N))"
    using assms(1) by (simp add: loop_exhausted)
  finally have "waitForReceipt getReceipt txId (Some N) =
           (Inl (Error ''Transaction not found.''), ThorTicker # rounds txId (nat N))"
    by (simp add: waitForReceipt_def)
  then show ?thesis
    by (simp add: ticks_rounds)
qed

theorem waitForReceipt_not_found_witness:
  "waitForReceipt neverMined ''0x01'' (Some 5) =
     (Inl (Error ''Transaction not found.''),
      [ThorTicker, TickerNext, GetReceipt ''0x01'', TickerNext, GetReceipt ''0x01'',
       TickerNext, GetReceipt ''0x01'', TickerNext, GetReceipt ''0x01'',
       TickerNext, GetReceipt ''0x01''])
   \<and> ticks (snd (waitForReceipt neverMined ''0x01'' (Some 5))) = 5"
  using waitForReceipt_not_found[of 5 neverMined "''0x01''"]
  by (simp add: neverMined_def rounds_def eval_nat_numeral ticks_def)

text \<open>
  Claim C2. With a budget of 0 ticks the wait rejects with "Transaction not found." at
  once: the log holds the creation of the ticker and nothing else, so no tick was
  requested and no receipt was queried.
\<close>

theorem waitForReceipt_zero:
  "waitForReceipt getReceipt txId (Some 0) = (Inl (Error ''Transaction not found.''), [ThorTicker])
   \<and> ticks (snd (waitForReceipt getReceipt txId (Some 0))) = 0
   \<and> receiptQueries (snd (waitForReceipt getReceipt txId (Some 0))) = 0"
  by (simp add: waitForReceipt_def loop_exhausted ticks_def receiptQueries_def)

text \<open>
  Claim C3. When the receipt first appears at tick \<open>k\<close>, with \<open>1 \<le> k \<le> N\<close>, and is
  reverted, the wait rejects with "The transaction has been reverted." and its log ends
  with the \<open>k\<close>-th query: \<open>k\<close> ticks and \<open>k\<close> queries, nothing after them.
\<close>

theorem waitForReceipt_reverted:
  assumes "1 \<le> k" and "int k \<le> N"
    and "\<forall>j. 1 \<le> j \<and> j < k \<longrightarrow> getReceipt j txId = Inr None"
    and "getReceipt k txId = Inr (Some r)"
    and "reverted r"
  shows "waitForReceipt getReceipt txId (Some N) =
           (Inl (Error ''The transaction has been reverted.''), ThorTicker # rounds txId k)
         \<and> ticks (snd (waitForReceipt getReceipt txId (Some N))) = k
         \<and> receiptQueries (snd (waitForReceipt getReceipt txId (Some N))) = k"
  using waitForReceipt_found[of k N getReceipt txId r] assms
  by (simp add: ticks_rounds receiptQueries_rounds)

theorem waitForReceipt_reverted_witness:
  "waitForReceipt revertedAtTwo ''0x01'' (Some 5) =
     (Inl (Error ''The transaction has been reverted.''),
      [ThorTicker, TickerNext, GetReceipt ''0x01'', TickerNext, GetReceipt ''0x01''])
   \<and> ticks (snd (waitForReceipt revertedAtTwo ''0x01'' (Some 5))) = 2
   \<and> receiptQueries (snd (waitForReceipt revertedAtTwo ''0x01'' (Some 5))) = 2"
  using waitForReceipt_reverted[of 2 5 revertedAtTwo "''0x01''" "\<lparr>reverted = True\<rparr>"]
  by (simp add: revertedAtTwo_def rounds_def eval_nat_numeral ticks_def receiptQueries_def)

text \<open>
  Claim C4. When the receipt first appears at tick \<open>k\<close>, with \<open>1 \<le> k \<le> N\<close>, and is not
  reverted, the wait resolves with that very receipt after \<open>k\<close> ticks.
\<close>

theorem waitForReceipt_confirmed:
  assumes "1 \<le> k" and "int k \<le> N"
    and "\<forall>j. 1 \<le> j \<and> j < k \<longrightarrow> getReceipt j txId = Inr None"
    and "getReceipt k txId = Inr (Some r)"
    and "\<not> reverted r"
  shows "waitForReceipt getReceipt txId (Some N) = (Inr r, ThorTicker # rounds txId k)
         \<and> ticks (snd (waitForReceipt getReceipt txId (Some N))) = k"
  using waitForReceipt_found[of k N getReceipt txId r] assms
  by (simp add: ticks_rounds)

theorem waitForReceipt_confirmed_witness:
  "waitForReceipt minedAtThree ''0x01'' (Some 5) =
     (Inr \<lparr>reverted = False\<rparr>,
      [ThorTicker, TickerNext, GetReceipt ''0x01'', TickerNext, GetReceipt ''0x01'',
       TickerNext, GetReceipt ''0x01''])
   \<and> ticks (snd (waitForReceipt minedAtThree ''0x01'' (Some 5))) = 3"
  using waitForReceipt_confirmed[of 3 5 minedAtThree "''0x01''" "\<lparr>reverted = False\<rparr>"]
  by (simp add: minedAtThree_def rounds_def eval_nat_numeral ticks_def)

section \<open>Properties of JavaScript numbers\<close>

declare ulp.simps [simp del]

lemma ulp_small: "n < 2 ^ 53 \<Longrightarrow> ulp n = 1"
  by (subst ulp.simps) simp

lemma ulp_2_53: "ulp (2 ^ 53) = 2"
  by (subst ulp.simps) (simp add: ulp_small)

text \<open>Up to \<open>2^53\<close> in magnitude every integer is a double, and a sum is exact.\<close>

lemma roundHalfEven_exact:
  assumes "n \<le> 2 ^ 53"
  shows "roundHalfEven n = n"
proof (cases "n < 2 ^ 53")
  case True
  then show ?thesis
    by (simp add: roundHalfEven_def ulp_small)
next
  case False
  then have n: "n = 2 ^ 53"
    using assms by simp
  have u: "ulp n = 2"
    unfolding n by (rule ulp_2_53)
  have "n mod 2 = 0" "n div 2 * 2 = n"
    unfolding n by simp_all
  then show ?thesis
    by (simp add: roundHalfEven_def u Let_def)
qed

lemma toNumber_exact:
  assumes "\<bar>s\<bar> \<le> 2 ^ 53"
  shows "toNumber s = Finite s"
proof -
  have n: "nat \<bar>s\<bar> \<le> 2 ^ 53"
    using assms by (simp add: nat_le_iff)
  have "(2::nat) ^ 53 < 2 ^ 1024"
    by simp
  then have "\<not> (2::nat) ^ 1024 \<le> nat \<bar>s\<bar>"
    using n by linarith
  then show ?thesis
    unfolding toNumber_def Let_def roundHalfEven_exact[OF n] by auto
qed

text \<open>
  While \<open>j * limit\<close> stays within \<open>2^53\<close> in magnitude, the \<open>j\<close>-th window is at exactly
  \<open>j * limit\<close>.
\<close>

lemma offsetAt_exact:
  "\<bar>int j * limit\<bar> \<le> 2 ^ 53 \<Longrightarrow> offsetAt limit j = Finite (int j * limit)"
proof (induction j)
  case 0
  then show ?case by simp
next
  case (Suc j)
  have "\<bar>int j * limit\<bar> \<le> \<bar>int (Suc j) * limit\<bar>"
    by (simp add: abs_mult mult_right_mono)
  then have "offsetAt limit j = Finite (int j * limit)"
    using Suc by simp
  moreover have "int j * limit + limit = int (Suc j) * limit"
    by (simp add: algebra_simps)
  ultimately show ?case
    using Suc.prems by (simp add: toNumber_exact del: of_nat_Suc)
qed

lemma offsetAt_exact_upto:
  assumes "\<bar>int k * limit\<bar> \<le> 2 ^ 53" and "j \<le> k"
  shows "offsetAt limit j = Finite (int j * limit)"
proof (rule offsetAt_exact)
  have "\<bar>int j * limit\<bar> \<le> \<bar>int k * limit\<bar>"
    using assms(2) by (simp add: abs_mult mult_right_mono)
  then show "\<bar>int j * limit\<bar> \<le> 2 ^ 53"
    using assms(1) by simp
qed

section \<open>Properties of fetchEvents\<close>

lemma applications_append: "applications (xs @ ys) = applications xs @ applications ys"
  by (induction xs rule: applications.induct) simp_all

lemma invocations_append: "invocations (xs @ ys) = invocations xs @ invocations ys"
  by (induction xs rule: invocations.induct) simp_all

lemma pages_Suc:
  "pages apply limit (Suc n) =
     pages apply limit n @ [Apply (offsetAt limit n) limit, Callback (pageAt apply limit n)]"
  by (simp add: pages_def)

lemma invocations_pages: "invocations (pages apply limit n) = map (pageAt apply limit) [0..<n]"
  by (induction n) (simp_all add: pages_Suc invocations_append, simp add: pages_def)

lemma applications_pages:
  "applications (pages apply limit n) = map (\<lambda>j. (offsetAt limit j, limit)) [0..<n]"
  by (induction n) (simp_all add: pages_Suc applications_append, simp add: pages_def)

lemma pageAt_nonempty:
  "pageAt apply limit j \<noteq> [] \<Longrightarrow> apply (offsetAt limit j) limit = Inr (pageAt apply limit j)"
  by (simp add: pageAt_def pageIn_def split: sum.splits)

text \<open>One round on a non-empty page whose callback resolves.\<close>

lemma loop_round:
  assumes "pageAt apply limit n \<noteq> []" and "callback n (pageAt apply limit n) = None"
  shows "fetchEvents_loop (Suc fuel) apply callback limit (offsetAt limit n) (pages apply limit n) =
         fetchEvents_loop fuel apply callback limit (offsetAt limit (Suc n)) (pages apply limit (Suc n))"
  using assms pageAt_nonempty[OF assms(1)]
  by (simp add: Let_def invocations_pages pages_Suc algebra_simps)

lemma loop_clean:
  assumes "\<forall>j. n \<le> j \<and> j < n + m \<longrightarrow>
             pageAt apply limit j \<noteq> [] \<and> callback j (pageAt apply limit j) = None"
  shows "fetchEvents_loop (m + fuel) apply callback limit (offsetAt limit n) (pages apply limit n) =
         fetchEvents_loop fuel apply callback limit (offsetAt limit (n + m)) (pages apply limit (n + m))"
  using assms
proof (induction m arbitrary: n)
  case 0
  then show ?case by simp
next
  case (Suc m)
  have "fetchEvents_loop (Suc (m + fuel)) apply callback limit (offsetAt limit n) (pages apply limit n) =
        fetchEvents_loop (m + fuel) apply callback limit (offsetAt limit (Suc n)) (pages apply limit (Suc n))"
    using Suc.prems by (intro loop_round) simp_all
  also have "\<dots> = fetchEvents_loop fuel apply callback limit (offsetAt limit (Suc n + m))
                     (pages apply limit (Suc n + m))"
    using Suc.prems by (intro Suc.IH) simp
  finally show ?case by simp
qed

lemma loop_empty:
  assumes "apply (offsetAt limit n) limit = Inr []"
  shows "fetchEvents_loop (Suc fuel) apply callback limit (offsetAt limit n) (pages apply limit n) =
         (Some (Inr ()), pages apply limit n @ [Apply (offsetAt limit n) limit])"
  using assms by (simp add: Let_def)

lemma loop_callback_fails:
  assumes "pageAt apply limit n \<noteq> []" and "callback n (pageAt apply limit n) = Some x"
  shows "fetchEvents_loop (Suc fuel) apply callback limit (offsetAt limit n) (pages apply limit n) =
         (Some (Inl (Thrown x)), pages apply limit (Suc n))"
  using assms pageAt_nonempty[OF assms(1)]
  by (simp add: Let_def invocations_pages pages_Suc)

lemma fetchEvents_start:
  "fetchEvents fuel apply callback (Some limit) =
     fetchEvents_loop fuel apply callback limit (offsetAt limit 0) (pages apply limit 0)"
  by (simp add: fetchEvents_def pages_def)

lemma fetchEvents_complete:
  assumes "apply (offsetAt limit k) limit = Inr []"
    and "\<forall>j<k. pageAt apply limit j \<noteq> [] \<and> callback j (pageAt apply limit j) = None"
    and "k < fuel"
  shows "fetchEvents fuel apply callback (Some limit) =
           (Some (Inr ()), pages apply limit k @ [Apply (offsetAt limit k) limit])"
proof -
  obtain f where f: "fuel = k + Suc f" using assms(3) less_iff_Suc_add by auto
  have "fetchEvents fuel apply callback (Some limit) =
        fetchEvents_loop (Suc f) apply callback limit (offsetAt limit (0 + k)) (pages apply limit (0 + k))"
    unfolding fetchEvents_start f using assms(2) by (intro loop_clean) simp
  then show ?thesis using loop_empty[of "apply" limit k f callback] assms(1) by simp
qed

lemma fetchEvents_fails:
  assumes "\<forall>i\<le>j. pageAt apply limit i \<noteq> []"
    and "\<forall>i<j. callback i (pageAt apply limit i) = None"
    and "callback j (pageAt apply limit j) = Some x"
    and "j < fuel"
  shows "fetchEvents fuel apply callback (Some limit) = (Some (Inl (Thrown x)), pages apply limit (Suc j))"
proof -
  obtain f where f: "fuel = j + Suc f" using assms(4) less_iff_Suc_add by auto
  have "fetchEvents fuel apply callback (Some limit) =
        fetchEvents_loop (Suc f) apply callback limit (offsetAt limit (0 + j)) (pages apply limit (0 + j))"
    unfolding fetchEvents_start f using assms(1,2) by (intro loop_clean) simp
  then show ?thesis using loop_callback_fails[of "apply" limit j callback x f] assms(1,3) by simp
qed


text \<open>
  The shape of every run, whatever the fuel and whatever the filter and the callback do:
  complete rounds on non-empty pages, at most one more application of the filter, and
  success only where the filter found an empty page.
\<close>

lemma fetch_loop_outcome:
  assumes "\<forall>j<n. pageAt apply limit j \<noteq> []"
  shows "\<exists>m. (\<forall>j<m. pageAt apply limit j \<noteq> [])
            \<and> (snd (fetchEvents_loop fuel apply callback limit (offsetAt limit n) (pages apply limit n)) =
                 pages apply limit m
               \<or> snd (fetchEvents_loop fuel apply callback limit (offsetAt limit n) (pages apply limit n)) =
                 pages apply limit m @ [Apply (offsetAt limit m) limit])
            \<and> (fst (fetchEvents_loop fuel apply callback limit (offsetAt limit n) (pages apply limit n)) =
                 Some (Inr ()) \<longrightarrow>
               snd (fetchEvents_loop fuel apply callback limit (offsetAt limit n) (pages apply limit n)) =
                 pages apply limit m @ [Apply (offsetAt limit m) limit]
               \<and> apply (offsetAt limit m) limit = Inr [])"
  using assms
proof (induction fuel arbitrary: n)
  case 0
  then show ?case by auto
next
  case (Suc fuel)
  show ?case
  proof (cases "apply (offsetAt limit n) limit")
    case (Inl x)
    then have "fetchEvents_loop (Suc fuel) apply callback limit (offsetAt limit n) (pages apply limit n) =
        (Some (Inl (Thrown x)), pages apply limit n @ [Apply (offsetAt limit n) limit])"
      by (simp add: Let_def)
    then show ?thesis using Suc.prems by auto
  next
    case (Inr page)
    show ?thesis
    proof (cases "page = []")
      case True
      then have "fetchEvents_loop (Suc fuel) apply callback limit (offsetAt limit n) (pages apply limit n) =
          (Some (Inr ()), pages apply limit n @ [Apply (offsetAt limit n) limit])"
        using Inr by (simp add: Let_def)
      then show ?thesis using Suc.prems Inr True by auto
    next
      case False
      then have ne: "pageAt apply limit n \<noteq> []"
        using Inr by (simp add: pageAt_def pageIn_def)
      then have all: "\<forall>j<Suc n. pageAt apply limit j \<noteq> []"
        using Suc.prems by (simp add: less_Suc_eq)
      show ?thesis
      proof (cases "callback n (pageAt apply limit n)")
        case None
        have step: "fetchEvents_loop (Suc fuel) apply callback limit (offsetAt limit n) (pages apply limit n) =
            fetchEvents_loop fuel apply callback limit (offsetAt limit (Suc n)) (pages apply limit (Suc n))"
          using ne None by (rule loop_round)
        show ?thesis unfolding step using all by (rule Suc.IH)
      next
        case (Some x)
        have stop: "fetchEvents_loop (Suc fuel) apply callback limit (offsetAt limit n) (pages apply limit n) =
            (Some (Inl (Thrown x)), pages apply limit (Suc n))"
          using ne Some by (rule loop_callback_fails)
        show ?thesis unfolding stop using all by auto
      qed
    qed
  qed
qed

lemma loop_no_empty_callback:
  "Callback [] \<notin> set tr \<Longrightarrow>
     Callback [] \<notin> set (snd (fetchEvents_loop fuel apply callback limit offset tr))"
proof (induction fuel arbitrary: offset tr)
  case 0
  then show ?case by simp
next
  case (Suc fuel)
  show ?case
  proof (cases "apply offset limit")
    case (Inl x)
    then show ?thesis using Suc.prems by (simp add: Let_def)
  next
    case (Inr page)
    show ?thesis
    proof (cases "page = []")
      case True
      then show ?thesis using Inr Suc.prems by (simp add: Let_def)
    next
      case False
      have "Callback [] \<notin> set (tr @ [Apply offset limit] @ [Callback page])"
        using False Suc.prems by simp
      from Suc.IH[OF this] show ?thesis using Inr False Suc.prems
        by (cases "callback (length (invocations tr)) page") (simp_all add: Let_def)
    qed
  qed
qed

lemma fetchEvents_default:
  "fetchEvents fuel apply callback None = fetchEvents fuel apply callback (Some 20)"
  by (simp add: fetchEvents_def)

text \<open>Within the exact range the \<open>j\<close>-th page is the page at offset \<open>j * limit\<close>.\<close>

lemma pageAt_exact:
  assumes "\<bar>int k * limit\<bar> \<le> 2 ^ 53" and "j \<le> k"
  shows "pageAt apply limit j = pageIn apply limit (Finite (int j * limit))"
  using offsetAt_exact_upto[OF assms] by (simp add: pageAt_def)

lemma fetchEvents_complete_exact:
  assumes "\<bar>int k * limit\<bar> \<le> 2 ^ 53"
    and "apply (Finite (int k * limit)) limit = Inr []"
    and "\<forall>j<k. pageIn apply limit (Finite (int j * limit)) \<noteq> []
           \<and> callback j (pageIn apply limit (Finite (int j * limit))) = None"
    and "k < fuel"
  shows "fetchEvents fuel apply callback (Some limit) =
           (Some (Inr ()), pages apply limit k @ [Apply (Finite (int k * limit)) limit])"
proof -
  have k: "offsetAt limit k = Finite (int k * limit)"
    using assms(1) by (rule offsetAt_exact)
  have "pageAt apply limit j = pageIn apply limit (Finite (int j * limit))" if "j < k" for j
    using pageAt_exact[OF assms(1), of j "apply"] that by simp
  then have "\<forall>j<k. pageAt apply limit j \<noteq> [] \<and> callback j (pageAt apply limit j) = None"
    using assms(3) by simp
  then have "fetchEvents fuel apply callback (Some limit) =
           (Some (Inr ()), pages apply limit k @ [Apply (offsetAt limit k) limit])"
    using assms(2,4) by (intro fetchEvents_complete) (simp_all add: k)
  then show ?thesis
    by (simp add: k)
qed

text \<open>The example filters, page by page.\<close>

lemma pages_0: "pages apply limit 0 = []"
  by (simp add: pages_def)

lemma offsetAt_20: "j \<le> 2 \<Longrightarrow> offsetAt 20 j = Finite (int j * 20)"
  by (rule offsetAt_exact_upto[of 2]) simp_all

lemma threePages_nonempty: "\<forall>j<2. pageAt threePages 20 j \<noteq> []"
  by (auto simp: pageAt_def pageIn_def threePages_def offsetAt_20 dest!: less_2_cases)

lemma pages_threePages:
  "pages threePages 20 2 =
     [Apply (Finite 0) 20, Callback [0..<20], Apply (Finite 20) 20, Callback [20..<27]]"
  using offsetAt_20[of 0] offsetAt_20[of 1]
  by (simp add: numeral_2_eq_2 pages_Suc pages_0 pageAt_def pageIn_def threePages_def)

lemma lateOffsets:
  "offsetAt 2251799813685249 (Suc 0) = Finite 2251799813685249"
  "offsetAt 2251799813685249 (Suc (Suc 0)) = Finite 4503599627370498"
  "offsetAt 2251799813685249 (Suc (Suc (Suc 0))) = Finite 6755399441055747"
  "offsetAt 2251799813685249 (Suc (Suc (Suc (Suc 0)))) = Finite 9007199254740996"
  "offsetAt 2251799813685249 (Suc (Suc (Suc (Suc (Suc 0))))) = Finite 11258999068426244"
  "offsetAt 2251799813685249 (Suc (Suc (Suc (Suc (Suc (Suc 0)))))) = Finite 13510798882111492"
  "offsetAt 2251799813685249 (Suc (Suc (Suc (Suc (Suc (Suc (Suc 0))))))) = Finite 15762598695796740"
  by (simp_all add: toNumber_def roundHalfEven_def ulp.simps Let_def)

lemma latePages: "\<forall>j<7. pageAt lateWindows 2251799813685249 j \<noteq> []"
proof (intro allI impI)
  fix j :: nat
  assume "j < 7"
  then consider "j = 0" | "j = Suc 0" | "j = Suc (Suc 0)" | "j = Suc (Suc (Suc 0))" | "j = Suc (Suc (Suc (Suc 0)))" | "j = Suc (Suc (Suc (Suc (Suc 0))))" | "j = Suc (Suc (Suc (Suc (Suc (Suc 0)))))"
    by linarith
  then show "pageAt lateWindows 2251799813685249 j \<noteq> []"
  proof cases
    case 1
    then show ?thesis
      by (simp add: pageAt_def pageIn_def lateWindows_def)
  next
    case 2
    then show ?thesis
      unfolding pageAt_def 2 lateOffsets by (simp add: pageIn_def lateWindows_def)
  next
    case 3
    then show ?thesis
      unfolding pageAt_def 3 lateOffsets by (simp add: pageIn_def lateWindows_def)
  next
    case 4
    then show ?thesis
      unfolding pageAt_def 4 lateOffsets by (simp add: pageIn_def lateWindows_def)
  next
    case 5
    then show ?thesis
      unfolding pageAt_def 5 lateOffsets by (simp add: pageIn_def lateWindows_def)
  next
    case 6
    then show ?thesis
      unfolding pageAt_def 6 lateOffsets by (simp add: pageIn_def lateWindows_def)
  next
    case 7
    then show ?thesis
      unfolding pageAt_def 7 lateOffsets by (simp add: pageIn_def lateWindows_def)
  qed
qed

lemma pages_lateWindows:
  "pages lateWindows 2251799813685249 (Suc (Suc (Suc (Suc (Suc (Suc (Suc 0))))))) =
     [Apply (Finite 0) 2251799813685249, Callback [0],
      Apply (Finite 2251799813685249) 2251799813685249, Callback [0],
      Apply (Finite 4503599627370498) 2251799813685249, Callback [0],
      Apply (Finite 6755399441055747) 2251799813685249, Callback [0],
      Apply (Finite 9007199254740996) 2251799813685249, Callback [0],
      Apply (Finite 11258999068426244) 2251799813685249, Callback [0],
      Apply (Finite 13510798882111492) 2251799813685249, Callback [0]]"
  unfolding pages_Suc pages_0 pageAt_def lateOffsets
  by (simp add: pageIn_def lateWindows_def)

lemma fetchEvents_lateWindows:
  "fetchEvents 8 lateWindows accepting (Some 2251799813685249) =
     (Some (Inr ()),
      [Apply (Finite 0) 2251799813685249, Callback [0],
       Apply (Finite 2251799813685249) 2251799813685249, Callback [0],
       Apply (Finite 4503599627370498) 2251799813685249, Callback [0],
       Apply (Finite 6755399441055747) 2251799813685249, Callback [0],
       Apply (Finite 9007199254740996) 2251799813685249, Callback [0],
       Apply (Finite 11258999068426244) 2251799813685249, Callback [0],
       Apply (Finite 13510798882111492) 2251799813685249, Callback [0],
       Apply (Finite 15762598695796740) 2251799813685249])"
proof -
  have seven: "(7::nat) = Suc (Suc (Suc (Suc (Suc (Suc (Suc 0))))))"
    by simp
  have "fetchEvents 8 lateWindows accepting (Some 2251799813685249) =
      (Some (Inr ()),
       pages lateWindows 2251799813685249 7 @ [Apply (offsetAt 2251799813685249 7) 2251799813685249])"
  proof (rule fetchEvents_complete)
    show "lateWindows (offsetAt 2251799813685249 7) 2251799813685249 = Inr []"
      unfolding seven lateOffsets by (simp add: lateWindows_def)
    show "\<forall>j<7. pageAt lateWindows 2251799813685249 j \<noteq> []
        \<and> accepting j (pageAt lateWindows 2251799813685249 j) = None"
      using latePages by (simp add: accepting_def)
    show "(7::nat) < 8"
      by simp
  qed
  then show ?thesis
    unfolding seven pages_lateWindows lateOffsets by simp
qed

text \<open>
  Claim C5, as amended. Every run, whatever the fuel, the filter and the callback do,
  has a log of \<open>m\<close> complete rounds, the \<open>j\<close>-th being the filter applied to the \<open>j\<close>-th
  window followed by the callback on the page found there, with at most one more
  application of the filter, to the \<open>m\<close>-th window, after them. Each of the \<open>m\<close> pages is
  non-empty, whatever its length, and the run resolves only where that last application
  found an empty page: the first one. The offset of the \<open>j\<close>-th window is 0 with \<open>limit\<close>
  added \<open>j\<close> times as JavaScript adds numbers. While \<open>k * limit\<close> is within \<open>2^53\<close> in
  magnitude these offsets are exactly \<open>0, limit, 2 * limit, \<dots>, k * limit\<close>; when moreover
  the first empty page is the one at \<open>k * limit\<close> and no callback fails before it, the run
  resolves after all \<open>k\<close> rounds and the application that found the empty page.
\<close>

theorem fetchEvents_offset_order:
  "(\<exists>m. (\<forall>j<m. pageAt apply limit j \<noteq> [])
        \<and> (snd (fetchEvents fuel apply callback (Some limit)) = pages apply limit m
           \<or> snd (fetchEvents fuel apply callback (Some limit)) =
               pages apply limit m @ [Apply (offsetAt limit m) limit])
        \<and> (fst (fetchEvents fuel apply callback (Some limit)) = Some (Inr ()) \<longrightarrow>
             snd (fetchEvents fuel apply callback (Some limit)) =
               pages apply limit m @ [Apply (offsetAt limit m) limit]
             \<and> apply (offsetAt limit m) limit = Inr []))
   \<and> (\<bar>int k * limit\<bar> \<le> 2 ^ 53 \<longrightarrow>
        (\<forall>j\<le>k. offsetAt limit j = Finite (int j * limit)))
   \<and> (\<bar>int k * limit\<bar> \<le> 2 ^ 53
        \<and> apply (Finite (int k * limit)) limit = Inr []
        \<and> (\<forall>j<k. pageIn apply limit (Finite (int j * limit)) \<noteq> []
                \<and> callback j (pageIn apply limit (Finite (int j * limit))) = None)
        \<and> k < fuel \<longrightarrow>
      fetchEvents fuel apply callback (Some limit) =
        (Some (Inr ()), pages apply limit k @ [Apply (Finite (int k * limit)) limit]))"
proof (intro conjI impI allI)
  show "\<exists>m. (\<forall>j<m. pageAt apply limit j \<noteq> [])
        \<and> (snd (fetchEvents fuel apply callback (Some limit)) = pages apply limit m
           \<or> snd (fetchEvents fuel apply callback (Some limit)) =
               pages apply limit m @ [Apply (offsetAt limit m) limit])
        \<and> (fst (fetchEvents fuel apply callback (Some limit)) = Some (Inr ()) \<longrightarrow>
             snd (fetchEvents fuel apply callback (Some limit)) =
               pages apply limit m @ [Apply (offsetAt limit m) limit]
             \<and> apply (offsetAt limit m) limit = Inr [])"
    unfolding fetchEvents_start by (rule fetch_loop_outcome) simp
next
  fix j
  assume "\<bar>int k * limit\<bar> \<le> 2 ^ 53" and "j \<le> k"
  then show "offsetAt limit j = Finite (int j * limit)"
    by (rule offsetAt_exact_upto)
next
  assume "\<bar>int k * limit\<bar> \<le> 2 ^ 53
        \<and> apply (Finite (int k * limit)) limit = Inr []
        \<and> (\<forall>j<k. pageIn apply limit (Finite (int j * limit)) \<noteq> []
                \<and> callback j (pageIn apply limit (Finite (int j * limit))) = None)
        \<and> k < fuel"
  then show "fetchEvents fuel apply callback (Some limit) =
        (Some (Inr ()), pages apply limit k @ [Apply (Finite (int k * limit)) limit])"
    by (intro fetchEvents_complete_exact) simp_all
qed

theorem fetchEvents_offset_order_witness:
  "fetchEvents 3 threePages accepting (Some 20) =
     (Some (Inr ()),
      [Apply (Finite 0) 20, Callback [0..<20], Apply (Finite 20) 20, Callback [20..<27],
       Apply (Finite 40) 20])"
proof -
  have "\<bar>int 2 * 20\<bar> \<le> (2::int) ^ 53"
    by simp
  moreover have "threePages (Finite (int 2 * 20)) 20 = Inr []"
    by (simp add: threePages_def)
  moreover have "\<forall>j<2. pageIn threePages 20 (Finite (int j * 20)) \<noteq> []
      \<and> accepting j (pageIn threePages 20 (Finite (int j * 20))) = None"
    by (auto simp: pageIn_def threePages_def accepting_def dest!: less_2_cases)
  ultimately show ?thesis
    using fetchEvents_offset_order[of threePages 20 3 accepting 2]
    by (simp add: pages_threePages)
qed

text \<open>
  Claim C5 as first stated puts the windows at \<open>0, limit, 2 * limit, \<dots>\<close> for every
  \<open>limit\<close>. With \<open>limit = 2^51 + 1\<close> the sixth and seventh window are opened at
  11258999068426244 and 13510798882111492, each the sum before it plus the limit rounded
  to the nearest double, not at \<open>5 * limit\<close> and \<open>6 * limit\<close>. The run never looks at
  \<open>6 * limit = 13510798882111494\<close>, itself a double, where the filter \<open>lateWindows\<close> has
  its first empty page, and stops one window later.
\<close>

theorem fetchEvents_offset_order_counterexample:
  "fetchEvents 8 lateWindows accepting (Some 2251799813685249) =
     (Some (Inr ()),
      [Apply (Finite 0) 2251799813685249, Callback [0],
       Apply (Finite 2251799813685249) 2251799813685249, Callback [0],
       Apply (Finite 4503599627370498) 2251799813685249, Callback [0],
       Apply (Finite 6755399441055747) 2251799813685249, Callback [0],
       Apply (Finite 9007199254740996) 2251799813685249, Callback [0],
       Apply (Finite 11258999068426244) 2251799813685249, Callback [0],
       Apply (Finite 13510798882111492) 2251799813685249, Callback [0],
       Apply (Finite 15762598695796740) 2251799813685249])
   \<and> Finite 11258999068426244 \<noteq> Finite (5 * 2251799813685249)
   \<and> Finite 13510798882111492 \<noteq> Finite (6 * 2251799813685249)
   \<and> toNumber (6 * 2251799813685249) = Finite (6 * 2251799813685249)
   \<and> lateWindows (Finite (6 * 2251799813685249)) 2251799813685249 = Inr []"
  using fetchEvents_lateWindows
  by (simp add: lateWindows_def toNumber_def roundHalfEven_def ulp.simps Let_def)

text \<open>
  Claim C6. When the page at offset 0 is empty, the run resolves, the callback was never
  invoked and the filter was applied once, at offset 0.
\<close>

theorem fetchEvents_first_page_empty:
  assumes "apply (Finite 0) limit = Inr []"
  shows "fetchEvents (Suc fuel) apply callback (Some limit) =
           (Some (Inr ()), [Apply (Finite 0) limit])
         \<and> invocations (snd (fetchEvents (Suc fuel) apply callback (Some limit))) = []
         \<and> applications (snd (fetchEvents (Suc fuel) apply callback (Some limit))) =
             [(Finite 0, limit)]"
  using assms by (simp add: fetchEvents_def Let_def)

theorem fetchEvents_first_page_empty_witness:
  "fetchEvents 1 noEvents accepting (Some 20) = (Some (Inr ()), [Apply (Finite 0) 20])
   \<and> invocations (snd (fetchEvents 1 noEvents accepting (Some 20))) = []
   \<and> applications (snd (fetchEvents 1 noEvents accepting (Some 20))) = [(Finite 0, 20)]"
  using fetchEvents_first_page_empty[of noEvents 20 0 accepting]
  by (simp add: noEvents_def)

text \<open>
  Claim C7. When the callback rejects with \<open>x\<close> on page \<open>j\<close>, having resolved on the pages
  before it, the run rejects with that same \<open>x\<close> and its log ends with that invocation:
  \<open>j + 1\<close> applications of the filter and \<open>j + 1\<close> invocations of the callback, none for
  page \<open>j + 1\<close>.
\<close>

theorem fetchEvents_callback_failure:
  assumes "\<forall>i\<le>j. pageAt apply limit i \<noteq> []"
    and "\<forall>i<j. callback i (pageAt apply limit i) = None"
    and "callback j (pageAt apply limit j) = Some x"
    and "j < fuel"
  shows "fetchEvents fuel apply callback (Some limit) =
           (Some (Inl (Thrown x)), pages apply limit (Suc j))
         \<and> length (applications (snd (fetchEvents fuel apply callback (Some limit)))) = Suc j
         \<and> length (invocations (snd (fetchEvents fuel apply callback (Some limit)))) = Suc j"
  using fetchEvents_fails[of j "apply" limit callback x fuel] assms
  by (simp add: applications_pages invocations_pages del: upt_Suc)

theorem fetchEvents_callback_failure_witness:
  "fetchEvents 10 threePages rejectingSecond (Some 20) =
     (Some (Inl (Thrown ''consumer failed'')),
      [Apply (Finite 0) 20, Callback [0..<20], Apply (Finite 20) 20, Callback [20..<27]])
   \<and> length (applications (snd (fetchEvents 10 threePages rejectingSecond (Some 20)))) = 2
   \<and> length (invocations (snd (fetchEvents 10 threePages rejectingSecond (Some 20)))) = 2"
proof -
  have "\<forall>i\<le>1. pageAt threePages 20 i \<noteq> []"
    using threePages_nonempty by simp
  moreover have "\<forall>i<1. rejectingSecond i (pageAt threePages 20 i) = None"
    by (simp add: rejectingSecond_def)
  moreover have "rejectingSecond 1 (pageAt threePages 20 1) = Some ''consumer failed''"
    by (simp add: rejectingSecond_def)
  ultimately show ?thesis
    using fetchEvents_callback_failure[of 1 threePages 20 rejectingSecond "''consumer failed''" 10]
      pages_threePages
    by (simp add: numeral_2_eq_2)
qed

text \<open>
  Claim C8, as amended. When \<open>k * limit\<close> is within \<open>2^53\<close> in magnitude and the filter
  returns an empty page at offset \<open>k * limit\<close> and non-empty pages at every smaller
  multiple of \<open>limit\<close>, the run ends within \<open>k + 1\<close> rounds after at most \<open>k + 1\<close>
  applications of the filter; it resolves after exactly \<open>k + 1\<close> of them when no callback
  fails on those \<open>k\<close> pages.
\<close>

theorem fetchEvents_terminates:
  assumes "\<bar>int k * limit\<bar> \<le> 2 ^ 53"
    and "apply (Finite (int k * limit)) limit = Inr []"
    and "\<forall>j<k. pageIn apply limit (Finite (int j * limit)) \<noteq> []"
    and "k < fuel"
  shows "fst (fetchEvents fuel apply callback (Some limit)) \<noteq> None
         \<and> length (applications (snd (fetchEvents fuel apply callback (Some limit)))) \<le> k + 1
         \<and> ((\<forall>j<k. callback j (pageIn apply limit (Finite (int j * limit))) = None) \<longrightarrow>
              fst (fetchEvents fuel apply callback (Some limit)) = Some (Inr ())
              \<and> length (applications (snd (fetchEvents fuel apply callback (Some limit)))) = k + 1)"
proof (cases "\<forall>j<k. callback j (pageIn apply limit (Finite (int j * limit))) = None")
  case True
  then have "fetchEvents fuel apply callback (Some limit) =
        (Some (Inr ()), pages apply limit k @ [Apply (Finite (int k * limit)) limit])"
    using assms by (intro fetchEvents_complete_exact) simp_all
  then show ?thesis
    by (simp add: applications_append applications_pages)
next
  case False
  have page: "pageAt apply limit i = pageIn apply limit (Finite (int i * limit))" if "i \<le> k" for i
    using assms(1) that by (rule pageAt_exact)
  define j where "j = (LEAST j. j < k \<and> callback j (pageAt apply limit j) \<noteq> None)"
  have ex: "\<exists>j. j < k \<and> callback j (pageAt apply limit j) \<noteq> None"
    using False page by auto
  have jk: "j < k" and fails: "callback j (pageAt apply limit j) \<noteq> None"
    using LeastI_ex[OF ex] unfolding j_def by simp_all
  have before: "\<forall>i<j. callback i (pageAt apply limit i) = None"
  proof (intro allI impI)
    fix i assume "i < j"
    then have "\<not> (i < k \<and> callback i (pageAt apply limit i) \<noteq> None)"
      unfolding j_def by (rule not_less_Least)
    moreover have "i < k" using \<open>i < j\<close> jk by simp
    ultimately show "callback i (pageAt apply limit i) = None" by simp
  qed
  have nonempty: "\<forall>i\<le>j. pageAt apply limit i \<noteq> []"
    using assms(3) jk page by simp
  obtain x where x: "callback j (pageAt apply limit j) = Some x"
    using fails by blast
  have "fetchEvents fuel apply callback (Some limit) =
          (Some (Inl (Thrown x)), pages apply limit (Suc j))"
    using nonempty before x assms(4) jk by (intro fetchEvents_fails) simp_all
  then show ?thesis
    using False jk by (simp add: applications_pages del: upt_Suc)
qed

theorem fetchEvents_terminates_witness:
  "fst (fetchEvents 3 threePages accepting (Some 20)) = Some (Inr ())
   \<and> length (applications (snd (fetchEvents 3 threePages accepting (Some 20)))) = 3"
proof -
  have "\<bar>int 2 * 20\<bar> \<le> (2::int) ^ 53"
    by simp
  moreover have "threePages (Finite (int 2 * 20)) 20 = Inr []"
    by (simp add: threePages_def)
  moreover have "\<forall>j<2. pageIn threePages 20 (Finite (int j * 20)) \<noteq> []"
    by (auto simp: pageIn_def threePages_def dest!: less_2_cases)
  moreover have "\<forall>j<2. accepting j (pageIn threePages 20 (Finite (int j * 20))) = None"
    by (simp add: accepting_def)
  ultimately show ?thesis
    using fetchEvents_terminates[of 2 20 threePages 3 accepting]
    by simp
qed

text \<open>
  Claim C8 as first stated asks for exactly \<open>k + 1\<close> applications whatever the callback
  does and whatever the limit is. The filter \<open>threePages\<close> has its first empty page at
  \<open>k = 2\<close>; with a callback that rejects the first page the run is over after one
  application, not three. The filter \<open>lateWindows\<close>, read in windows of \<open>2^51 + 1\<close>, has
  rows at the multiples 0 to 5 of the limit and none at the multiple 6; the run never looks
  there and makes eight applications, not seven.
\<close>

theorem fetchEvents_terminates_counterexample:
  "threePages (Finite (int 2 * 20)) 20 = Inr []
   \<and> pageIn threePages 20 (Finite (int 0 * 20)) \<noteq> []
   \<and> pageIn threePages 20 (Finite (int 1 * 20)) \<noteq> []
   \<and> fetchEvents 3 threePages rejecting (Some 20) =
       (Some (Inl (Thrown ''consumer failed'')), [Apply (Finite 0) 20, Callback [0..<20]])
   \<and> length (applications (snd (fetchEvents 3 threePages rejecting (Some 20)))) \<noteq> 2 + 1
   \<and> lateWindows (Finite (int 6 * 2251799813685249)) 2251799813685249 = Inr []
   \<and> pageIn lateWindows 2251799813685249 (Finite (int 0 * 2251799813685249)) \<noteq> []
   \<and> pageIn lateWindows 2251799813685249 (Finite (int 1 * 2251799813685249)) \<noteq> []
   \<and> pageIn lateWindows 2251799813685249 (Finite (int 2 * 2251799813685249)) \<noteq> []
   \<and> pageIn lateWindows 2251799813685249 (Finite (int 3 * 2251799813685249)) \<noteq> []
   \<and> pageIn lateWindows 2251799813685249 (Finite (int 4 * 2251799813685249)) \<noteq> []
   \<and> pageIn lateWindows 2251799813685249 (Finite (int 5 * 2251799813685249)) \<noteq> []
   \<and> fst (fetchEvents 8 lateWindows accepting (Some 2251799813685249)) = Some (Inr ())
   \<and> length (applications (snd (fetchEvents 8 lateWindows accepting (Some 2251799813685249))))
       \<noteq> 6 + 1"
proof -
  have "threePages (Finite (int 2 * 20)) 20 = Inr []
   \<and> pageIn threePages 20 (Finite (int 0 * 20)) \<noteq> []
   \<and> pageIn threePages 20 (Finite (int 1 * 20)) \<noteq> []
   \<and> fetchEvents 3 threePages rejecting (Some 20) =
       (Some (Inl (Thrown ''consumer failed'')), [Apply (Finite 0) 20, Callback [0..<20]])
   \<and> length (applications (snd (fetchEvents 3 threePages rejecting (Some 20)))) \<noteq> 2 + 1"
    by (simp add: fetchEvents_def threePages_def pageIn_def rejecting_def numeral_3_eq_3 Let_def)
  moreover have "lateWindows (Finite (int 6 * 2251799813685249)) 2251799813685249 = Inr []
   \<and> pageIn lateWindows 2251799813685249 (Finite (int 0 * 2251799813685249)) \<noteq> []
   \<and> pageIn lateWindows 2251799813685249 (Finite (int 1 * 2251799813685249)) \<noteq> []
   \<and> pageIn lateWindows 2251799813685249 (Finite (int 2 * 2251799813685249)) \<noteq> []
   \<and> pageIn lateWindows 2251799813685249 (Finite (int 3 * 2251799813685249)) \<noteq> []
   \<and> pageIn lateWindows 2251799813685249 (Finite (int 4 * 2251799813685249)) \<noteq> []
   \<and> pageIn lateWindows 2251799813685249 (Finite (int 5 * 2251799813685249)) \<noteq> []"
    by (simp add: lateWindows_def pageIn_def)
  moreover have "fst (fetchEvents 8 lateWindows accepting (Some 2251799813685249)) = Some (Inr ())
   \<and> length (applications (snd (fetchEvents 8 lateWindows accepting (Some 2251799813685249))))
       \<noteq> 6 + 1"
    unfolding fetchEvents_lateWindows by simp
  ultimately show ?thesis
    by blast
qed

text \<open>
  Claim C10. In no run, finished or not, is the callback invoked with an empty page.
\<close>

theorem fetchEvents_pages_nonempty:
  "Callback [] \<notin> set (snd (fetchEvents fuel apply callback limit_arg))"
  unfolding fetchEvents_def Let_def by (rule loop_no_empty_callback) simp

section \<open>Properties of getContract\<close>

lemma find_append_case:
  "find P (xs @ ys) = (case find P xs of Some y \<Rightarrow> Some y | None \<Rightarrow> find P ys)"
  by (induction xs) simp_all

lemma lastItem_Nil: "lastItem P [] = None"
  by (simp add: lastItem_def)

lemma lastItem_Cons:
  "lastItem P (x # xs) =
     (case lastItem P xs of Some y \<Rightarrow> Some y | None \<Rightarrow> if P x then Some x else None)"
  by (simp add: lastItem_def find_append_case split: option.splits)

text \<open>On a table with its first prototype, any key but \<^verbatim>\<open>__proto__\<close> is a map update.\<close>

lemma assign_plain:
  assumes "key \<noteq> ''__proto__''" and "prototype t = ObjectPrototype"
  shows "assign readOnly key v t = Inr (t\<lparr>own := (own t)(key \<mapsto> v)\<rparr>)"
  using assms by (simp add: assign_def)

lemma bindItem_plain:
  assumes "name item \<noteq> Some ''__proto__''" and "pristine ct"
  shows "\<exists>ct'. bindItem readOnly cx a item ct = Inr ct'
           \<and> pristine ct' \<and> getAddress ct' = getAddress ct
           \<and> own (constant (methods ct')) =
               (\<lambda>n. if viewFunction n item then Some (defineConstant cx a item)
                     else own (constant (methods ct)) n)
           \<and> own (signed (methods ct')) =
               (\<lambda>n. if otherFunction n item then Some (defineSignedRequest cx a item)
                     else own (signed (methods ct)) n)
           \<and> own (clause (methods ct')) =
               (\<lambda>n. if otherFunction n item then Some (defineClause cx a item)
                     else own (clause (methods ct)) n)
           \<and> own (events ct') =
               (\<lambda>n. if namedEvent n item then Some (event cx a item) else own (events ct) n)"
proof (cases "name item")
  case None
  then show ?thesis
    using assms(2) by (simp add: bindItem_def viewFunction_def otherFunction_def namedEvent_def)
next
  case (Some key)
  then have key: "key \<noteq> ''__proto__''"
    using assms(1) by simp
  have protos:
    "prototype (constant (methods ct)) = ObjectPrototype"
    "prototype (signed (methods ct)) = ObjectPrototype"
    "prototype (clause (methods ct)) = ObjectPrototype"
    "prototype (events ct) = ObjectPrototype"
    using assms(2) by (simp_all add: pristine_def)
  show ?thesis
    using Some protos
    by (auto simp: bindItem_def assign_plain[OF key] pristine_def
          viewFunction_def otherFunction_def namedEvent_def fun_eq_iff)
qed

lemma bindAll_plain:
  assumes "\<forall>item \<in> set abi. name item \<noteq> Some ''__proto__''" and "pristine ct"
  shows "\<exists>ct'. bindAll readOnly cx a abi ct = Inr ct'
           \<and> pristine ct' \<and> getAddress ct' = getAddress ct
           \<and> (\<forall>n. own (constant (methods ct')) n =
                 (case lastItem (viewFunction n) abi of
                    Some item \<Rightarrow> Some (defineConstant cx a item)
                  | None \<Rightarrow> own (constant (methods ct)) n))
           \<and> (\<forall>n. own (signed (methods ct')) n =
                 (case lastItem (otherFunction n) abi of
                    Some item \<Rightarrow> Some (defineSignedRequest cx a item)
                  | None \<Rightarrow> own (signed (methods ct)) n))
           \<and> (\<forall>n. own (clause (methods ct')) n =
                 (case lastItem (otherFunction n) abi of
                    Some item \<Rightarrow> Some (defineClause cx a item)
                  | None \<Rightarrow> own (clause (methods ct)) n))
           \<and> (\<forall>n. own (events ct') n =
                 (case lastItem (namedEvent n) abi of
                    Some item \<Rightarrow> Some (event cx a item)
                  | None \<Rightarrow> own (events ct) n))"
  using assms
proof (induction abi arbitrary: ct)
  case Nil
  then show ?case by (simp add: lastItem_Nil)
next
  case (Cons item abi)
  obtain ct1 where ct1: "bindItem readOnly cx a item ct = Inr ct1"
    and p1: "pristine ct1" and a1: "getAddress ct1 = getAddress ct"
    and c1: "own (constant (methods ct1)) =
               (\<lambda>n. if viewFunction n item then Some (defineConstant cx a item)
                     else own (constant (methods ct)) n)"
    and s1: "own (signed (methods ct1)) =
               (\<lambda>n. if otherFunction n item then Some (defineSignedRequest cx a item)
                     else own (signed (methods ct)) n)"
    and l1: "own (clause (methods ct1)) =
               (\<lambda>n. if otherFunction n item then Some (defineClause cx a item)
                     else own (clause (methods ct)) n)"
    and e1: "own (events ct1) =
               (\<lambda>n. if namedEvent n item then Some (event cx a item) else own (events ct) n)"
    using bindItem_plain[of item ct readOnly cx a] Cons.prems by auto
  have rest: "\<forall>item \<in> set abi. name item \<noteq> Some ''__proto__''"
    using Cons.prems(1) by simp
  from Cons.IH[OF rest p1] obtain ct' where
    "bindAll readOnly cx a abi ct1 = Inr ct'" "pristine ct'" "getAddress ct' = getAddress ct1"
    "\<forall>n. own (constant (methods ct')) n =
       (case lastItem (viewFunction n) abi of
          Some item \<Rightarrow> Some (defineConstant cx a item)
        | None \<Rightarrow> own (constant (methods ct1)) n)"
    "\<forall>n. own (signed (methods ct')) n =
       (case lastItem (otherFunction n) abi of
          Some item \<Rightarrow> Some (defineSignedRequest cx a item)
        | None \<Rightarrow> own (signed (methods ct1)) n)"
    "\<forall>n. own (clause (methods ct')) n =
       (case lastItem (otherFunction n) abi of
          Some item \<Rightarrow> Some (defineClause cx a item)
        | None \<Rightarrow> own (clause (methods ct1)) n)"
    "\<forall>n. own (events ct') n =
       (case lastItem (namedEvent n) abi of
          Some item \<Rightarrow> Some (event cx a item)
        | None \<Rightarrow> own (events ct1) n)"
    by blast
  then show ?case
    by (simp add: ct1 a1 c1 s1 l1 e1 lastItem_Cons split: option.splits)
qed

text \<open>
  For an ABI without an item named \<^verbatim>\<open>__proto__\<close> the loop builds the partition: under a
  name \<open>n\<close> the constant table holds the wrapper of the last view function named \<open>n\<close>, the
  signed and the clause table the wrappers of the last other function named \<open>n\<close>, the
  event table the visitor of the last event named \<open>n\<close>, and nothing where there is no such
  item.
\<close>

lemma getContract_tables:
  assumes "\<forall>item \<in> set abi. name item \<noteq> Some ''__proto__''"
  shows "\<exists>ct. getContract readOnly cx abi a = Inr ct
           \<and> pristine ct \<and> getAddress ct = a
           \<and> (\<forall>n. own (constant (methods ct)) n =
                 map_option (defineConstant cx a) (lastItem (viewFunction n) abi))
           \<and> (\<forall>n. own (signed (methods ct)) n =
                 map_option (defineSignedRequest cx a) (lastItem (otherFunction n) abi))
           \<and> (\<forall>n. own (clause (methods ct)) n =
                 map_option (defineClause cx a) (lastItem (otherFunction n) abi))
           \<and> (\<forall>n. own (events ct) n =
                 map_option (event cx a) (lastItem (namedEvent n) abi))"
proof -
  let ?ct0 = "\<lparr>methods = \<lparr>constant = emptyTable, signed = emptyTable, clause = emptyTable\<rparr>,
        events = emptyTable, getAddress = a\<rparr>
        :: ('a, 'b, 'c, 'd, 'e, 'f) contract"
  have "pristine ?ct0"
    by (simp add: pristine_def emptyTable_def)
  from bindAll_plain[OF assms this, of readOnly cx a] obtain ct where
    run: "getContract readOnly cx abi a = Inr ct" and p: "pristine ct" and addr: "getAddress ct = a"
    and c: "\<forall>n. own (constant (methods ct)) n =
       (case lastItem (viewFunction n) abi of
          Some item \<Rightarrow> Some (defineConstant cx a item)
        | None \<Rightarrow> own (constant (methods ?ct0)) n)"
    and s: "\<forall>n. own (signed (methods ct)) n =
       (case lastItem (otherFunction n) abi of
          Some item \<Rightarrow> Some (defineSignedRequest cx a item)
        | None \<Rightarrow> own (signed (methods ?ct0)) n)"
    and l: "\<forall>n. own (clause (methods ct)) n =
       (case lastItem (otherFunction n) abi of
          Some item \<Rightarrow> Some (defineClause cx a item)
        | None \<Rightarrow> own (clause (methods ?ct0)) n)"
    and e: "\<forall>n. own (events ct) n =
       (case lastItem (namedEvent n) abi of
          Some item \<Rightarrow> Some (event cx a item)
        | None \<Rightarrow> own (events ?ct0) n)"
    unfolding getContract_def by auto
  have "own (constant (methods ct)) n =
      map_option (defineConstant cx a) (lastItem (viewFunction n) abi)" for n
    using c by (cases "lastItem (viewFunction n) abi") (simp_all add: emptyTable_def)
  moreover have "own (signed (methods ct)) n =
      map_option (defineSignedRequest cx a) (lastItem (otherFunction n) abi)" for n
    using s by (cases "lastItem (otherFunction n) abi") (simp_all add: emptyTable_def)
  moreover have "own (clause (methods ct)) n =
      map_option (defineClause cx a) (lastItem (otherFunction n) abi)" for n
    using l by (cases "lastItem (otherFunction n) abi") (simp_all add: emptyTable_def)
  moreover have "own (events ct) n =
      map_option (event cx a) (lastItem (namedEvent n) abi)" for n
    using e by (cases "lastItem (namedEvent n) abi") (simp_all add: emptyTable_def)
  ultimately show ?thesis
    using run p addr by blast
qed

text \<open>What the three wrappers do when called.\<close>

lemma constant_call:
  "defineConstant cx a item args = map_sum Thrown decoded (call cx a item args)"
  by (cases "call cx a item args") (simp_all add: defineConstant_def)

lemma signed_request:
  "defineSignedRequest cx a item args cm =
     map_sum Thrown id (request cx \<lparr>clauses = [asClause cx a item args], comment = cm\<rparr>)"
  by (cases cm; cases "request cx \<lparr>clauses = [asClause cx a item args], comment = cm\<rparr>")
     (simp_all add: defineSignedRequest_def sign_tx_def with_comment_def)

text \<open>The names bound in each table for the example ABI.\<close>

lemma getContract_tokenAbi:
  "\<exists>ct. getContract readOnly cx tokenAbi a = Inr ct
     \<and> dom (own (constant (methods ct))) = {''balanceOf''}
     \<and> dom (own (signed (methods ct))) = {''transfer'', ''decimals''}
     \<and> dom (own (clause (methods ct))) = {''transfer'', ''decimals''}
     \<and> dom (own (events ct)) = {''Transfer''}"
  by (auto simp: getContract_def bindItem_def assign_def emptyTable_def tokenAbi_def abiItem_def)

text \<open>
  Claim C9. The claim has every named view function in the constant table. For the ABI
  whose only item is a view function named \<^verbatim>\<open>__proto__\<close>, an item that the partition puts
  in the constant table, the loop leaves all four tables without any entry: the
  assignment has replaced the prototype of the constant table by the wrapper instead.
\<close>

theorem getContract_proto_name:
  "viewFunction ''__proto__'' protoItem
   \<and> lastItem (viewFunction ''__proto__'') [protoItem] = Some protoItem
   \<and> getContract readOnly cx [protoItem] a =
       Inr \<lparr>methods =
              \<lparr>constant = \<lparr>own = Map.empty,
                            prototype = Replaced (defineConstant cx a protoItem)\<rparr>,
               signed = emptyTable,
               clause = emptyTable\<rparr>,
            events = emptyTable,
            getAddress = a\<rparr>"
  by (simp add: getContract_def bindItem_def assign_def emptyTable_def protoItem_def
        abiItem_def viewFunction_def lastItem_def)

end
